theory Spec2Isabelle
  imports Main
begin

section \<open>The platform values the router handles\<close>

text \<open>
  A \<open>Response\<close> as the router sees it: a status code, a body (\<open>None\<close> is the
  \<open>null\<close> body) and the header list given at construction. The router reads none of
  these; it only builds two responses of its own and passes all others through.
\<close>

record response =
  status :: nat
  body :: "string option"
  headers :: "(string \<times> string) list"

text \<open>\<open>new Response(b, { status: s })\<close>, the only form the router uses.\<close>

definition new_Response :: "string option \<Rightarrow> nat \<Rightarrow> response" where
  "new_Response b s = \<lparr>status = s, body = b, headers = []\<rparr>"

text \<open>
  A \<open>URL\<close> object. A \<open>Request\<close> holds its url in parsed form: \<open>request.url\<close> is the
  serialisation of that url and \<open>new URL(request.url)\<close> parses it back, which cannot
  fail. The model keeps the parsed url in the request. The field \<open>http_method\<close> is
  \<open>request.method\<close>.
\<close>

record URL =
  href :: string
  pathname :: string
  search :: string

record request =
  http_method :: string
  url :: URL

definition new_URL :: "URL \<Rightarrow> URL" where
  "new_URL u = u"

text \<open>
  What a \<open>throw\<close> can carry, as \<open>handle\<close> tells the cases apart:
  \<open>err instanceof Response\<close>, \<open>err instanceof Error\<close> (its \<open>message\<close>), anything else.
\<close>

datatype 'v thrown =
  ThrownResponse response
| ThrownError string
| ThrownValue 'v

text \<open>
  A value a plugin contributes under a key of its record (\<open>Record<string, any>\<close>), as far
  as \<open>Object.assign\<close> and a property read tell values apart: a primitive, which nobody
  looks into (\<open>Any\<close>); \<open>null\<close>; a plain object, as an object literal or \<open>JSON.parse\<close>
  makes it, by its own data properties, its prototype being \<open>Object.prototype\<close>; and
  \<open>Object.prototype\<close> itself. Other objects (functions, class instances, objects with
  accessors) are not described.
\<close>

type_synonym params = "string \<rightharpoonup> string"

datatype 'v data =
  Any 'v
| Null
| Object "string \<Rightarrow> 'v data option"
| Object_prototype

text \<open>
  The values a read of the handler context can give: the three the router puts there,
  what a plugin has contributed, and the members \<open>Object.prototype\<close> has by itself
  (\<open>toString\<close> and the like), by name.
\<close>

datatype 'v val =
  Params params
| Url URL
| Req request
| Data "'v data"
| Builtin string

text \<open>
  The handler context is an object: its own properties and its prototype. The prototype
  is \<open>Object.prototype\<close> at first; it is one of \<open>Object_prototype\<close>, \<open>Null\<close> and
  \<open>Object props\<close>, never a primitive.
\<close>

record 'v handler_context =
  own :: "string \<rightharpoonup> 'v val"
  proto :: "'v data"

text \<open>
  The own property names of \<open>Object.prototype\<close> other than \<open>__proto__\<close>, and what a read
  that reaches \<open>Object.prototype\<close> gives: for \<open>__proto__\<close> its getter answers with the
  prototype of the object that is read.
\<close>

definition Object_prototype_names :: "string list" where
  "Object_prototype_names =
     [''constructor'', ''__defineGetter__'', ''__defineSetter__'', ''hasOwnProperty'',
      ''__lookupGetter__'', ''__lookupSetter__'', ''isPrototypeOf'', ''propertyIsEnumerable'',
      ''toString'', ''valueOf'', ''toLocaleString'']"

definition from_Object_prototype :: "'v data \<Rightarrow> string \<Rightarrow> 'v val option" where
  "from_Object_prototype receiver_proto k =
     (if k = ''__proto__'' then Some (Data receiver_proto)
      else if k \<in> set Object_prototype_names then Some (Builtin k)
      else None)"

text \<open>
  The property read \<open>context[k]\<close>: the own property, else what the prototype chain has.
  \<open>None\<close> is \<open>undefined\<close>.
\<close>

definition get :: "'v handler_context \<Rightarrow> string \<Rightarrow> 'v val option" where
  "get context k =
     (case own context k of
        Some v \<Rightarrow> Some v
      | None \<Rightarrow>
          (case proto context of
             Object props \<Rightarrow>
               (case props k of
                  Some d \<Rightarrow> Some (Data d)
                | None \<Rightarrow> from_Object_prototype (proto context) k)
           | Object_prototype \<Rightarrow> from_Object_prototype (proto context) k
           | Null \<Rightarrow> None
           | Any v \<Rightarrow> None))"

subsection \<open>Strings\<close>

text \<open>\<open>String.prototype.split\<close> with a one-character separator: \<open>"".split("/")\<close> is \<open>[""]\<close>.\<close>

fun split :: "char \<Rightarrow> string \<Rightarrow> string list" where
  "split c [] = [[]]"
| "split c (x # xs) =
     (if x = c then [] # split c xs
      else (case split c xs of [] \<Rightarrow> [[x]] | w # ws \<Rightarrow> (x # w) # ws))"

text \<open>\<open>String.prototype.toLowerCase\<close> on the ASCII letters an HTTP method is made of.\<close>

definition upper_case :: string where
  "upper_case = ''ABCDEFGHIJKLMNOPQRSTUVWXYZ''"

definition lower_case :: string where
  "lower_case = ''abcdefghijklmnopqrstuvwxyz''"

definition toLowerCase_char :: "char \<Rightarrow> char" where
  "toLowerCase_char c = (case map_of (zip upper_case lower_case) c of None \<Rightarrow> c | Some d \<Rightarrow> d)"

definition toLowerCase :: "string \<Rightarrow> string" where
  "toLowerCase s = map toLowerCase_char s"

section \<open>Plugins, handlers and promises\<close>

text \<open>
  Plugins and handlers are the caller's functions. They may read and change the world
  outside the router (\<open>'w\<close>), so they are state transformers; a \<open>throw\<close> or a rejected
  promise is the \<open>Inl\<close> side of a sum.

  A plugin's result is a \<open>Response\<close> or a record of fields. A handler, by its type
  \<open>RouteHandler\<close>, returns a \<open>Response\<close> (never \<open>null\<close>) or throws.
\<close>

datatype 'v plugin_result =
  IsResponse response
| Fields "string \<rightharpoonup> 'v data"

text \<open>
  A plugin call \<open>p(request)\<close> inside \<open>plugins.map\<close> either throws on the spot or returns a
  value or promise. The promise settles at some later instant, fulfilled or rejected;
  a plain value counts as fulfilled. The instant is what tells which of several promises
  settled first.
\<close>

datatype 'v settled =
  Fulfilled "'v plugin_result"
| Rejected "'v thrown"

datatype 'v outcome =
  Throws "'v thrown"
| Returns nat "'v settled"

type_synonym ('v, 'w) plugin = "request \<Rightarrow> 'w \<Rightarrow> 'v outcome \<times> 'w"

type_synonym ('v, 'r, 'w) handler =
  "'v handler_context \<Rightarrow> 'r \<Rightarrow> 'w \<Rightarrow> ('v thrown + response) \<times> 'w"

text \<open>
  \<open>match\<close> is imported from \<open>./match.js\<close>; the router takes it as a parameter
  (\<open>matcher\<close>). It returns the captured parameters or \<open>null\<close>, and like any function
  it may throw.
\<close>

type_synonym 'v matcher = "string list \<Rightarrow> string list \<Rightarrow> 'v thrown + params option"

text \<open>
  \<open>plugins.map((p) => p(request))\<close>: the plugins are called in declaration order; a
  call that throws ends the \<open>map\<close> and no later plugin is called.
\<close>

fun invoke_plugins ::
  "('v, 'w) plugin list \<Rightarrow> request \<Rightarrow> 'w \<Rightarrow> ('v thrown + (nat \<times> 'v settled) list) \<times> 'w" where
  "invoke_plugins [] request w = (Inr [], w)"
| "invoke_plugins (p # ps) request w =
     (case p request w of
        (Throws e, w') \<Rightarrow> (Inl e, w')
      | (Returns t s, w') \<Rightarrow>
          (case invoke_plugins ps request w' of
             (Inl e, w'') \<Rightarrow> (Inl e, w'')
           | (Inr rest, w'') \<Rightarrow> (Inr ((t, s) # rest), w'')))"

text \<open>
  \<open>Promise.all\<close>: rejected with the reason of the promise that is rejected first in
  time (the earlier-declared one of two rejected at the same instant), otherwise
  fulfilled with all values in the order of the array.
\<close>

fun rejections :: "(nat \<times> 'v settled) list \<Rightarrow> (nat \<times> 'v thrown) list" where
  "rejections [] = []"
| "rejections ((t, Rejected e) # ps) = (t, e) # rejections ps"
| "rejections ((t, Fulfilled x) # ps) = rejections ps"

fun fulfilments :: "(nat \<times> 'v settled) list \<Rightarrow> 'v plugin_result list" where
  "fulfilments [] = []"
| "fulfilments ((t, Fulfilled x) # ps) = x # fulfilments ps"
| "fulfilments ((t, Rejected e) # ps) = fulfilments ps"

fun earliest :: "nat \<times> 'a \<Rightarrow> (nat \<times> 'a) list \<Rightarrow> nat \<times> 'a" where
  "earliest b [] = b"
| "earliest b (c # cs) = earliest (if fst c < fst b then c else b) cs"

definition Promise_all :: "(nat \<times> 'v settled) list \<Rightarrow> 'v thrown + 'v plugin_result list" where
  "Promise_all ps =
     (case rejections ps of
        [] \<Rightarrow> Inr (fulfilments ps)
      | r # rs \<Rightarrow> Inl (snd (earliest r rs)))"

text \<open>
  \<open>Object.assign(target, source)\<close> copies every own property of \<open>source\<close> by an
  assignment \<open>target[k] = v\<close>. For every key but \<open>__proto__\<close> the assignment makes or
  overwrites an own property of the target. For \<open>__proto__\<close> it does so only when the
  target has that own property already or does not inherit the accessor of
  \<open>Object.prototype\<close> (its prototype is \<open>null\<close>, or a plain object with an own
  \<open>__proto__\<close> property); otherwise the assignment runs the accessor's setter, which
  makes an object or \<open>null\<close> the target's prototype and ignores a primitive.
\<close>

definition inherits_proto_setter :: "'v handler_context \<Rightarrow> bool" where
  "inherits_proto_setter target =
     (own target ''__proto__'' = None \<and>
      (case proto target of
         Object_prototype \<Rightarrow> True
       | Object props \<Rightarrow> props ''__proto__'' = None
       | Null \<Rightarrow> False
       | Any v \<Rightarrow> False))"

definition Object_assign ::
  "'v handler_context \<Rightarrow> (string \<rightharpoonup> 'v data) \<Rightarrow> 'v handler_context" where
  "Object_assign target source =
     (let copied =
        target\<lparr>own := own target ++ (map_option Data \<circ> (source(''__proto__'' := None)))\<rparr>
      in case source ''__proto__'' of
           None \<Rightarrow> copied
         | Some v \<Rightarrow>
             if inherits_proto_setter target
             then (case v of Any x \<Rightarrow> copied | _ \<Rightarrow> copied\<lparr>proto := v\<rparr>)
             else copied\<lparr>own := (own copied)(''__proto__'' \<mapsto> Data v)\<rparr>)"

text \<open>
  The loop over the results: the first \<open>Response\<close> is returned, every other result is
  copied into the context by \<open>Object.assign\<close>.
\<close>

fun inspect_results :: "'v plugin_result list \<Rightarrow> 'v handler_context \<Rightarrow> response + 'v handler_context" where
  "inspect_results [] context = Inr context"
| "inspect_results (IsResponse r # results) context = Inl r"
| "inspect_results (Fields f # results) context =
     inspect_results results (Object_assign context f)"

section \<open>The router\<close>

text \<open>The \<open>Method\<close> type and the property name each method is registered under.\<close>

datatype Method = Get | Post | Put | Delete | Patch | All

fun method_name :: "Method \<Rightarrow> string" where
  "method_name Get = ''get''"
| "method_name Post = ''post''"
| "method_name Put = ''put''"
| "method_name Delete = ''delete''"
| "method_name Patch = ''patch''"
| "method_name All = ''all''"

type_synonym ('v, 'r, 'w) Route =
  "string list \<Rightarrow> request \<Rightarrow> 'r \<Rightarrow> 'w \<Rightarrow> ('v thrown + response option) \<times> 'w"

text \<open>
  The context a matched route starts from: \<open>{ params, url: new URL(request.url), request }\<close>.
\<close>

definition initial_context :: "params \<Rightarrow> request \<Rightarrow> 'v handler_context" where
  "initial_context ps request =
     \<lparr>own = [''params'' \<mapsto> Params ps, ''url'' \<mapsto> Url (new_URL (url request)),
              ''request'' \<mapsto> Req request],
      proto = Object_prototype\<rparr>"

text \<open>
  The closure \<open>route\<close> built by a registration \<open>(pattern, plugins, h)\<close> under the
  property \<open>property\<close>. \<open>Inr None\<close> is the \<open>null\<close> of a route that does not apply.
\<close>

definition route ::
  "'v matcher \<Rightarrow> Method \<Rightarrow> string \<Rightarrow> ('v, 'w) plugin list \<Rightarrow> ('v, 'r, 'w) handler
     \<Rightarrow> ('v, 'r, 'w) Route" where
  "route matcher property pattern plugins h segments request rest w =
     (let patternSegments = split CHR ''/'' pattern in
      if property \<noteq> All \<and> toLowerCase (http_method request) \<noteq> method_name property
      then (Inr None, w)
      else
        (case matcher segments patternSegments of
           Inl e \<Rightarrow> (Inl e, w)
         | Inr None \<Rightarrow> (Inr None, w)
         | Inr (Some ps) \<Rightarrow>
             (case invoke_plugins plugins request w of
                (Inl e, w') \<Rightarrow> (Inl e, w')
              | (Inr promises, w') \<Rightarrow>
                  (case Promise_all promises of
                     Inl e \<Rightarrow> (Inl e, w')
                   | Inr results \<Rightarrow>
                       (case inspect_results results (initial_context ps request) of
                          Inl r \<Rightarrow> (Inr (Some r), w')
                        | Inr context \<Rightarrow>
                            (case h context rest w' of
                               (Inl e, w'') \<Rightarrow> (Inl e, w'')
                             | (Inr r, w'') \<Rightarrow> (Inr (Some r), w'')))))))"

text \<open>
  The loop of \<open>handle\<close> over \<open>routes\<close>: the first route that does not answer \<open>null\<close>
  ends it; a throw ends it as well. \<open>Inr None\<close> is the loop running to its end.
\<close>

fun try_routes ::
  "('v, 'r, 'w) Route list \<Rightarrow> string list \<Rightarrow> request \<Rightarrow> 'r \<Rightarrow> 'w
     \<Rightarrow> ('v thrown + response option) \<times> 'w" where
  "try_routes [] segments request rest w = (Inr None, w)"
| "try_routes (r # routes) segments request rest w =
     (case r segments request rest w of
        (Inl e, w') \<Rightarrow> (Inl e, w')
      | (Inr None, w') \<Rightarrow> try_routes routes segments request rest w'
      | (Inr (Some response), w') \<Rightarrow> (Inr (Some response), w'))"

text \<open>
  The \<open>catch\<close> clause of \<open>handle\<close>: what a throw of the loop becomes.
\<close>

definition catch_clause :: "'v thrown \<Rightarrow> response" where
  "catch_clause err =
     (case err of
        ThrownResponse r \<Rightarrow> r
      | ThrownError message \<Rightarrow> new_Response (Some message) 500
      | ThrownValue v \<Rightarrow> new_Response None 500)"

text \<open>
  \<open>handle\<close>. Its result is a sum as well, so that "it never throws" is a statement
  about it and not a matter of its type. The last case is the statement after the
  \<open>try\<close>, reached when the loop ends without a response.
\<close>

definition handle ::
  "('v, 'r, 'w) Route list \<Rightarrow> request \<Rightarrow> 'r \<Rightarrow> 'w \<Rightarrow> ('v thrown + response) \<times> 'w" where
  "handle routes request rest w =
     (let url' = new_URL (url request);
          segments = split CHR ''/'' (pathname url')
      in case try_routes routes segments request rest w of
           (Inr (Some response), w') \<Rightarrow> (Inr response, w')
         | (Inl err, w') \<Rightarrow> (Inr (catch_clause err), w')
         | (Inr None, w') \<Rightarrow> (Inr (new_Response None 500), w'))"

text \<open>
  Registration: \<open>router.get(pattern, plugins, h)\<close> pushes one route and returns the
  builder. A registration is kept as a record, and a router is built from a list of them.
\<close>

record ('v, 'r, 'w) registration =
  reg_method :: Method
  reg_pattern :: string
  reg_plugins :: "('v, 'w) plugin list"
  reg_handler :: "('v, 'r, 'w) handler"

definition route_of :: "'v matcher \<Rightarrow> ('v, 'r, 'w) registration \<Rightarrow> ('v, 'r, 'w) Route" where
  "route_of matcher g = route matcher (reg_method g) (reg_pattern g) (reg_plugins g) (reg_handler g)"

definition register ::
  "'v matcher \<Rightarrow> ('v, 'r, 'w) Route list \<Rightarrow> ('v, 'r, 'w) registration \<Rightarrow> ('v, 'r, 'w) Route list" where
  "register matcher routes g = routes @ [route_of matcher g]"

definition Router ::
  "'v matcher \<Rightarrow> ('v, 'r, 'w) registration list \<Rightarrow> ('v, 'r, 'w) Route list" where
  "Router matcher gs = foldl (register matcher) [] gs"

section \<open>The pattern matcher\<close>

text \<open>
  The router imports \<open>match\<close> from \<open>./match.js\<close>, which is not among the sources. The
  definitions of this section follow the spec's description of it (4.1); the router
  calls it as \<open>match(segments, patternSegments)\<close>.
\<close>

text \<open>
  Modelled from the spec: whether a pattern ends in the wildcard, "a trailing \<open>*\<close>",
  which \<open>match.js\<close> would test and the sources do not show.
\<close>

definition has_wildcard :: "string list \<Rightarrow> bool" where
  "has_wildcard patternSegments = (patternSegments \<noteq> [] \<and> last patternSegments = ''*'')"

text \<open>
  Modelled from the spec: the wildcard's value, the "remaining path segments re-joined
  with \<open>/\<close>", of the missing \<open>match.js\<close>.
\<close>

fun join :: "string list \<Rightarrow> string" where
  "join [] = []"
| "join [s] = s"
| "join (s # t # ss) = s @ ''/'' @ join (t # ss)"

text \<open>
  Modelled from the spec: the walk over the positions, left to right, of the missing
  \<open>match.js\<close>. A wildcard in last place binds the remaining segments under \<open>*\<close> and
  ends the walk with a match; a named capture (a segment that starts with \<open>:\<close>) needs a
  path segment that is present and not empty and binds it under the name, the last write
  winning; any other segment is a literal and must equal the path segment. The walk
  matches at the end of the pattern only when the path has ended too.
\<close>

fun walk :: "string list \<Rightarrow> string list \<Rightarrow> params \<Rightarrow> params option" where
  "walk segments [] ps = (if segments = [] then Some ps else None)"
| "walk segments (p # pattern) ps =
     (if p = ''*'' \<and> pattern = [] then Some (ps(''*'' \<mapsto> join segments))
      else
        (case segments of
           [] \<Rightarrow> None
         | s # rest \<Rightarrow>
             (if take 1 p = '':''
              then (if s = [] then None else walk rest pattern (ps(drop 1 p \<mapsto> s)))
              else (if s = p then walk rest pattern ps else None))))"

text \<open>
  Modelled from the spec: \<open>match\<close> of the missing \<open>match.js\<close>. It compares the lengths
  first: without a wildcard they must be equal, with one the path must have at least as
  many segments as the pattern has before the wildcard; then it walks the positions.
  \<open>None\<close> is "no match".
\<close>

definition match :: "string list \<Rightarrow> string list \<Rightarrow> params option" where
  "match segments patternSegments =
     (if \<not> has_wildcard patternSegments \<and> length segments \<noteq> length patternSegments
      then None
      else if has_wildcard patternSegments \<and> length segments < length patternSegments - 1
      then None
      else walk segments patternSegments Map.empty)"

text \<open>
  Modelled from the spec: the matcher as the router is given it in the examples. The
  spec's contract has it return parameters or "no match", so it does not throw.
\<close>

definition imported_match :: "'v matcher" where
  "imported_match segments patternSegments = Inr (match segments patternSegments)"

section \<open>Example routers\<close>

text \<open>
  The examples take plain numbers for the values nobody looks into, no extra arguments,
  and a counter as the world: every plugin and handler call of the examples adds to it.
\<close>

definition users_me_request :: request where
  "users_me_request =
     \<lparr>http_method = ''GET'',
      url = \<lparr>href = ''http://localhost/users/me'', pathname = ''/users/me'', search = ''''\<rparr>\<rparr>"

definition teapot :: response where
  "teapot = \<lparr>status = 418, body = Some ''teapot'', headers = [(''X-Kind'', ''pot'')]\<rparr>"

definition throwing_handler :: "nat thrown \<Rightarrow> (nat, unit, nat) handler" where
  "throwing_handler e context rest w = (Inl e, Suc w)"

definition users_throwing :: "nat thrown \<Rightarrow> (nat, unit, nat) registration" where
  "users_throwing e =
     \<lparr>reg_method = Get, reg_pattern = ''/users/:id'', reg_plugins = [],
      reg_handler = throwing_handler e\<rparr>"

definition throwing_router :: "nat thrown \<Rightarrow> (nat, unit, nat) Route list" where
  "throwing_router e = Router imported_match [users_throwing e]"

definition by_id_handler :: "(nat, unit, nat) handler" where
  "by_id_handler context rest w =
     (Inr \<lparr>status = 200,
           body = (case get context ''params'' of Some (Params ps) \<Rightarrow> ps ''id'' | _ \<Rightarrow> None),
           headers = []\<rparr>,
      Suc w)"

definition me_handler :: "(nat, unit, nat) handler" where
  "me_handler context rest w =
     (Inr \<lparr>status = 200, body = Some ''the me route'', headers = []\<rparr>, w + 10)"

definition users_post :: "(nat, unit, nat) registration" where
  "users_post =
     \<lparr>reg_method = Post, reg_pattern = ''/users/:id'', reg_plugins = [],
      reg_handler = throwing_handler (ThrownError ''post'')\<rparr>"

definition users_by_id :: "(nat, unit, nat) registration" where
  "users_by_id =
     \<lparr>reg_method = Get, reg_pattern = ''/users/:id'', reg_plugins = [],
      reg_handler = by_id_handler\<rparr>"

definition users_me :: "(nat, unit, nat) registration" where
  "users_me =
     \<lparr>reg_method = Get, reg_pattern = ''/users/me'', reg_plugins = [],
      reg_handler = me_handler\<rparr>"

definition forbidden :: response where
  "forbidden = \<lparr>status = 403, body = Some ''forbidden'', headers = []\<rparr>"

text \<open>
  A plugin whose promise is fulfilled at instant \<open>t\<close>, with fields or with a response.
\<close>

definition fields_plugin :: "nat \<Rightarrow> (string \<rightharpoonup> nat data) \<Rightarrow> (nat, nat) plugin" where
  "fields_plugin t f request w = (Returns t (Fulfilled (Fields f)), Suc w)"

definition response_plugin :: "nat \<Rightarrow> response \<Rightarrow> (nat, nat) plugin" where
  "response_plugin t r request w = (Returns t (Fulfilled (IsResponse r)), Suc w)"

text \<open>A handler that answers with what it finds under the given keys of its context.\<close>

fun show_val :: "nat val option \<Rightarrow> string" where
  "show_val None = ''-''"
| "show_val (Some (Params ps)) = ''params''"
| "show_val (Some (Url u)) = ''url''"
| "show_val (Some (Req r)) = ''request''"
| "show_val (Some (Data (Any n))) = replicate n CHR ''*''"
| "show_val (Some (Data Null)) = ''null''"
| "show_val (Some (Data (Object props))) = ''object''"
| "show_val (Some (Data Object_prototype)) = ''Object.prototype''"
| "show_val (Some (Builtin k)) = ''builtin''"

definition echo_handler :: "string list \<Rightarrow> (nat, unit, nat) handler" where
  "echo_handler keys context rest w =
     (Inr \<lparr>status = 200, body = Some (join (map (\<lambda>k. show_val (get context k)) keys)), headers = []\<rparr>,
      Suc w)"

definition users_guarded :: "(nat, unit, nat) registration" where
  "users_guarded =
     \<lparr>reg_method = Get, reg_pattern = ''/users/:id'',
      reg_plugins =
        [fields_plugin 9 [''user'' \<mapsto> Any 1], response_plugin 5 forbidden, response_plugin 1 teapot],
      reg_handler = by_id_handler\<rparr>"


definition users_overridden :: "(nat, unit, nat) registration" where
  "users_overridden =
     \<lparr>reg_method = Get, reg_pattern = ''/users/:id'',
      reg_plugins = [fields_plugin 0 [''params'' \<mapsto> Any 3]],
      reg_handler = echo_handler [''params'', ''url'', ''request'', ''user'']\<rparr>"


definition users_proto_object :: "(nat, unit, nat) registration" where
  "users_proto_object =
     \<lparr>reg_method = Get, reg_pattern = ''/users/:id'',
      reg_plugins = [fields_plugin 0 [''__proto__'' \<mapsto> Object [''user'' \<mapsto> Any 2]]],
      reg_handler = echo_handler [''user'', ''params'']\<rparr>"

definition mixed_case_request :: request where
  "mixed_case_request = users_me_request\<lparr>http_method := ''GeT''\<rparr>"

definition post_request :: request where
  "post_request = users_me_request\<lparr>http_method := ''POST''\<rparr>"

text \<open>A matcher that throws whenever it is called.\<close>

definition alarm_matcher :: "nat matcher" where
  "alarm_matcher segments patternSegments = Inl (ThrownError ''matcher called'')"

text \<open>A plugin and a handler that neither read nor change the world.\<close>

definition quiet_plugin :: "(nat, nat) plugin" where
  "quiet_plugin request w = (Returns 0 (Fulfilled (Fields [''user'' \<mapsto> Any 1])), w)"

definition quiet_handler :: "(nat, unit, nat) handler" where
  "quiet_handler context rest w =
     (Inr \<lparr>status = 200, body = Some (show_val (get context ''user'')), headers = []\<rparr>, w)"

definition users_pure :: "(nat, unit, nat) registration" where
  "users_pure =
     \<lparr>reg_method = Get, reg_pattern = ''/users/:id'', reg_plugins = [quiet_plugin],
      reg_handler = quiet_handler\<rparr>"

section \<open>Notions the properties speak of\<close>

text \<open>
  The method test of a route, read positively: the route is registered under \<open>all\<close> or
  the request's method in lower case is the route's property name.
\<close>

definition method_accepted :: "Method \<Rightarrow> request \<Rightarrow> bool" where
  "method_accepted property request =
     (property = All \<or> toLowerCase (http_method request) = method_name property)"

text \<open>
  A registration matches a request structurally when its method is accepted and the
  matcher returns parameters for its pattern. It declines the request when the method is
  refused or the matcher returns \<open>null\<close>. (A matcher that throws does neither.)
\<close>

definition structural_match ::
  "'v matcher \<Rightarrow> ('v, 'r, 'w) registration \<Rightarrow> string list \<Rightarrow> request \<Rightarrow> bool" where
  "structural_match matcher g segments request =
     (method_accepted (reg_method g) request \<and>
      (case matcher segments (split CHR ''/'' (reg_pattern g)) of
         Inr (Some ps) \<Rightarrow> True
       | _ \<Rightarrow> False))"

definition declines ::
  "'v matcher \<Rightarrow> ('v, 'r, 'w) registration \<Rightarrow> string list \<Rightarrow> request \<Rightarrow> bool" where
  "declines matcher g segments request =
     (\<not> method_accepted (reg_method g) request \<or>
      matcher segments (split CHR ''/'' (reg_pattern g)) = Inr None)"

text \<open>Two characters that are the same letter, in whatever case.\<close>

definition case_variant :: "char \<Rightarrow> char \<Rightarrow> bool" where
  "case_variant c d =
     (c = d \<or> (c, d) \<in> set (zip upper_case lower_case) \<or> (d, c) \<in> set (zip upper_case lower_case))"

text \<open>
  A pure plugin or handler: its result does not depend on the world and it leaves the
  world as it is.
\<close>

definition pure_plugin :: "('v, 'w) plugin \<Rightarrow> bool" where
  "pure_plugin p = (\<forall>request w w'. p request w = (fst (p request w'), w))"

definition pure_handler :: "('v, 'r, 'w) handler \<Rightarrow> bool" where
  "pure_handler h = (\<forall>context rest w w'. h context rest w = (fst (h context rest w'), w))"

definition pure_registration :: "('v, 'r, 'w) registration \<Rightarrow> bool" where
  "pure_registration g =
     (list_all pure_plugin (reg_plugins g) \<and> pure_handler (reg_handler g))"

section \<open>Properties\<close>

subsection \<open>Auxiliary facts\<close>

lemma foldl_register: "foldl (register matcher) acc gs = acc @ map (route_of matcher) gs"
  by (induction gs arbitrary: acc) (simp_all add: register_def)

lemma Router_map: "Router matcher gs = map (route_of matcher) gs"
  by (simp add: Router_def foldl_register)

lemma match_users_id_me:
  "match ['''', ''users'', ''me''] ['''', ''users'', '':id''] = Some [''id'' \<mapsto> ''me'']"
  by (simp add: match_def has_wildcard_def)

lemma lower_GET: "toLowerCase ''GET'' = ''get''"
  by (simp add: toLowerCase_def toLowerCase_char_def upper_case_def lower_case_def)

lemma segments_users_me:
  "split CHR ''/'' (pathname (url users_me_request)) = ['''', ''users'', ''me'']"
  by (simp add: users_me_request_def)

lemma method_users_me: "http_method users_me_request = ''GET''"
  by (simp add: users_me_request_def)

lemma try_throwing_router:
  "try_routes (throwing_router e) ['''', ''users'', ''me''] users_me_request () 0 = (Inl e, 1)"
  by (simp add: throwing_router_def users_throwing_def Router_map route_of_def route_def
      method_users_me lower_GET imported_match_def match_users_id_me Promise_all_def throwing_handler_def)

lemma route_of_declines:
  "declines matcher g segments request \<Longrightarrow>
   route_of matcher g segments request rest w = (Inr None, w)"
  by (auto simp: declines_def method_accepted_def route_of_def route_def)

lemma try_routes_skip:
  "\<forall>g\<in>set pre. declines matcher g segments request \<Longrightarrow>
   try_routes (map (route_of matcher) pre @ rs) segments request rest w
     = try_routes rs segments request rest w"
  by (induction pre) (simp_all add: route_of_declines)

lemma handle_first_answer:
  assumes "\<forall>x\<in>set pre. declines matcher x (split CHR ''/'' (pathname (url request))) request"
    and "route_of matcher g (split CHR ''/'' (pathname (url request))) request rest w
           = (Inr (Some response), w')"
  shows "handle (Router matcher (pre @ g # post)) request rest w = (Inr response, w')"
  using assms
  by (simp add: handle_def new_URL_def Router_map try_routes_skip)

lemma handle_first_throw:
  assumes "\<forall>x\<in>set pre. declines matcher x (split CHR ''/'' (pathname (url request))) request"
    and "route_of matcher g (split CHR ''/'' (pathname (url request))) request rest w
           = (Inl e, w')"
  shows "handle (Router matcher (pre @ g # post)) request rest w = (Inr (catch_clause e), w')"
  using assms
  by (simp add: handle_def new_URL_def Router_map try_routes_skip)

lemma route_of_matched:
  assumes "method_accepted (reg_method g) request"
    and "matcher segments (split CHR ''/'' (reg_pattern g)) = Inr (Some ps)"
    and "invoke_plugins (reg_plugins g) request w = (Inr promises, w1)"
    and "Promise_all promises = Inr results"
  shows "route_of matcher g segments request rest w =
     (case inspect_results results (initial_context ps request) of
        Inl r \<Rightarrow> (Inr (Some r), w1)
      | Inr context \<Rightarrow>
          (case reg_handler g context rest w1 of
             (Inl e, w2) \<Rightarrow> (Inl e, w2)
           | (Inr r, w2) \<Rightarrow> (Inr (Some r), w2)))"
  using assms by (auto simp: route_of_def route_def method_accepted_def)

lemma structural_match_not_null:
  assumes "structural_match matcher g segments request"
  shows "fst (route_of matcher g segments request rest w) \<noteq> Inr None"
  using assms
  by (auto simp: structural_match_def method_accepted_def route_of_def route_def
      split: sum.splits option.splits prod.splits)

lemma rejections_fulfilled: "rejections (zip ts (map Fulfilled results)) = []"
  by (induction ts results rule: list_induct2') simp_all

lemma fulfilments_fulfilled:
  "length ts = length results \<Longrightarrow> fulfilments (zip ts (map Fulfilled results)) = results"
  by (induction ts results rule: list_induct2') simp_all

lemma Promise_all_fulfilled:
  assumes "map snd promises = map Fulfilled results"
  shows "Promise_all promises = Inr results"
proof -
  have "promises = zip (map fst promises) (map Fulfilled results)"
    using assms by (metis zip_map_fst_snd)
  moreover have "length (map fst promises) = length results"
    using assms by (metis length_map)
  ultimately show ?thesis
    using rejections_fulfilled [of "map fst promises" results]
      fulfilments_fulfilled [of "map fst promises" results]
    by (simp add: Promise_all_def)
qed

lemma inspect_results_fields:
  "inspect_results (map Fields fs @ rs) ctx
     = inspect_results rs (foldl Object_assign ctx fs)"
  by (induction fs arbitrary: ctx) simp_all

lemma inspect_results_all_fields:
  "inspect_results (map Fields fs) ctx = Inr (foldl Object_assign ctx fs)"
  using inspect_results_fields [of fs "[]" ctx] by simp

lemma inspect_results_first_response:
  "inspect_results (map Fields fs @ IsResponse r # later) ctx = Inl r"
  by (simp add: inspect_results_fields)

lemma own_Object_assign:
  "k \<noteq> ''__proto__'' \<Longrightarrow>
   own (Object_assign target source) k
     = (case source k of Some v \<Rightarrow> Some (Data v) | None \<Rightarrow> own target k)"
  by (simp add: Object_assign_def Let_def map_add_def split: option.splits data.splits)

lemma Object_assign_no_proto_key:
  "source ''__proto__'' = None \<Longrightarrow>
   proto (Object_assign target source) = proto target \<and>
   own (Object_assign target source) ''__proto__'' = own target ''__proto__''"
  by (simp add: Object_assign_def Let_def map_add_def)

lemma assigned_unmentioned:
  "k \<noteq> ''__proto__'' \<Longrightarrow> \<forall>f\<in>set fs. f k = None \<Longrightarrow>
   own (foldl Object_assign ctx fs) k = own ctx k"
  by (induction fs arbitrary: ctx) (simp_all add: own_Object_assign)

lemma assigned_no_proto_key:
  "\<forall>f\<in>set fs. f ''__proto__'' = None \<Longrightarrow>
   proto (foldl Object_assign ctx fs) = proto ctx \<and>
   own (foldl Object_assign ctx fs) ''__proto__'' = own ctx ''__proto__''"
  by (induction fs arbitrary: ctx) (simp_all add: Object_assign_no_proto_key)

lemma assigned_last:
  "k \<noteq> ''__proto__'' \<Longrightarrow> i < length fs \<Longrightarrow> (fs ! i) k = Some v \<Longrightarrow>
   \<forall>j. i < j \<and> j < length fs \<longrightarrow> (fs ! j) k = None \<Longrightarrow>
   own (foldl Object_assign ctx fs) k = Some (Data v)"
proof (induction fs arbitrary: i ctx)
  case Nil
  then show ?case by simp
next
  case (Cons f fs)
  show ?case
  proof (cases i)
    case 0
    have "\<forall>g\<in>set fs. g k = None"
    proof
      fix g assume "g \<in> set fs"
      then obtain j where "j < length fs" "fs ! j = g" by (auto simp: in_set_conv_nth)
      with Cons.prems(4) 0 have "((f # fs) ! Suc j) k = None" by auto
      with \<open>fs ! j = g\<close> show "g k = None" by simp
    qed
    with Cons.prems(1)
    have "own (foldl Object_assign (Object_assign ctx f) fs) k = own (Object_assign ctx f) k"
      by (rule assigned_unmentioned)
    moreover have "own (Object_assign ctx f) k = Some (Data v)"
      using Cons.prems(1,3) 0 by (simp add: own_Object_assign)
    ultimately show ?thesis by simp
  next
    case (Suc n)
    have "own (foldl Object_assign (Object_assign ctx f) fs) k = Some (Data v)"
    proof (rule Cons.IH [OF Cons.prems(1)])
      show "n < length fs" using Cons.prems(2) Suc by simp
      show "(fs ! n) k = Some v" using Cons.prems(3) Suc by simp
      show "\<forall>j. n < j \<and> j < length fs \<longrightarrow> (fs ! j) k = None"
      proof (intro allI impI)
        fix j assume "n < j \<and> j < length fs"
        with Cons.prems(4) Suc have "((f # fs) ! Suc j) k = None" by auto
        then show "(fs ! j) k = None" by simp
      qed
    qed
    then show ?thesis by simp
  qed
qed

lemma stars:
  "replicate 1 c = [c]"
  "replicate 2 c = [c, c]"
  "replicate 3 c = [c, c, c]"
  "replicate 4 c = [c, c, c, c]"
  by (simp_all add: eval_nat_numeral)

lemma get_own: "own ctx k = Some v \<Longrightarrow> get ctx k = Some v"
  by (simp add: get_def)

lemma get_same:
  assumes "own c k = own c' k" and "proto c = proto c'"
  shows "get c k = get c' k"
  unfolding get_def assms by (rule refl)

lemma read_unmentioned:
  assumes "\<forall>f\<in>set fs. f ''__proto__'' = None" and "\<forall>f\<in>set fs. f k = None"
  shows "get (foldl Object_assign ctx fs) k = get ctx k"
proof (rule get_same)
  show "own (foldl Object_assign ctx fs) k = own ctx k"
    using assms assigned_unmentioned [of k fs ctx] assigned_no_proto_key [of fs ctx]
    by (cases "k = ''__proto__''") simp_all
  show "proto (foldl Object_assign ctx fs) = proto ctx"
    using assms(1) assigned_no_proto_key [of fs ctx] by simp
qed

lemma route_of_handler_runs:
  assumes "method_accepted (reg_method g) request"
    and "matcher segments (split CHR ''/'' (reg_pattern g)) = Inr (Some ps)"
    and "invoke_plugins (reg_plugins g) request w = (Inr promises, w1)"
    and "Promise_all promises = Inr results"
    and "inspect_results results (initial_context ps request) = Inr ctx"
  shows "route_of matcher g segments request rest w =
     (case reg_handler g ctx rest w1 of
        (Inl e, w2) \<Rightarrow> (Inl e, w2)
      | (Inr r, w2) \<Rightarrow> (Inr (Some r), w2))"
  using assms by (auto simp: route_of_def route_def method_accepted_def)

lemma handle_handler_outcome:
  assumes "\<forall>x\<in>set pre. declines matcher x (split CHR ''/'' (pathname (url request))) request"
    and "method_accepted (reg_method g) request"
    and "matcher (split CHR ''/'' (pathname (url request))) (split CHR ''/'' (reg_pattern g))
           = Inr (Some ps)"
    and "invoke_plugins (reg_plugins g) request w = (Inr promises, w1)"
    and "Promise_all promises = Inr results"
    and "inspect_results results (initial_context ps request) = Inr ctx"
    and "reg_handler g ctx rest w1 = (out, w2)"
  shows "handle (Router matcher (pre @ g # post)) request rest w
           = (Inr (case out of Inl e \<Rightarrow> catch_clause e | Inr r \<Rightarrow> r), w2)"
proof (cases out)
  case (Inl e)
  with route_of_handler_runs
    [where matcher = matcher and segments = "split CHR ''/'' (pathname (url request))",
      OF assms(2-6), of rest] assms(7)
  have "route_of matcher g (split CHR ''/'' (pathname (url request))) request rest w = (Inl e, w2)"
    by simp
  from handle_first_throw [OF assms(1) this, of post] Inl show ?thesis by simp
next
  case (Inr r)
  with route_of_handler_runs
    [where matcher = matcher and segments = "split CHR ''/'' (pathname (url request))",
      OF assms(2-6), of rest] assms(7)
  have "route_of matcher g (split CHR ''/'' (pathname (url request))) request rest w
          = (Inr (Some r), w2)"
    by simp
  from handle_first_answer [OF assms(1) this, of post] Inr show ?thesis by simp
qed

lemma handle_no_match:
  assumes "\<forall>x\<in>set gs. declines matcher x (split CHR ''/'' (pathname (url request))) request"
  shows "handle (Router matcher gs) request rest w = (Inr (new_Response None 500), w)"
  using try_routes_skip [OF assms, of "[]" rest w]
  by (simp add: handle_def new_URL_def Router_map)

lemma route_of_plugin_response:
  assumes "method_accepted (reg_method g) request"
    and "matcher segments (split CHR ''/'' (reg_pattern g)) = Inr (Some ps)"
    and "invoke_plugins (reg_plugins g) request w = (Inr promises, w1)"
    and "map snd promises = map Fulfilled (map Fields fs @ IsResponse r # later)"
  shows "route_of matcher g segments request rest w = (Inr (Some r), w1)"
proof -
  have "Promise_all promises = Inr (map Fields fs @ IsResponse r # later)"
    using assms(4) by (rule Promise_all_fulfilled)
  from route_of_matched [where matcher = matcher and segments = segments,
      OF assms(1-3) this, of rest]
  show ?thesis by (simp add: inspect_results_first_response)
qed

lemma route_of_plugin_fields:
  assumes "method_accepted (reg_method g) request"
    and "matcher segments (split CHR ''/'' (reg_pattern g)) = Inr (Some ps)"
    and "invoke_plugins (reg_plugins g) request w = (Inr promises, w1)"
    and "map snd promises = map Fulfilled (map Fields fs)"
  shows "route_of matcher g segments request rest w =
     (case reg_handler g (foldl Object_assign (initial_context ps request) fs) rest w1 of
        (Inl e, w2) \<Rightarrow> (Inl e, w2)
      | (Inr r, w2) \<Rightarrow> (Inr (Some r), w2))"
proof -
  have "Promise_all promises = Inr (map Fields fs)"
    using assms(4) by (rule Promise_all_fulfilled)
  from route_of_matched [where matcher = matcher and segments = segments,
      OF assms(1-3) this, of rest]
  show ?thesis by (simp add: inspect_results_all_fields)
qed

lemma lower_of_pair:
  assumes "(c, d) \<in> set (zip upper_case lower_case)"
  shows "toLowerCase_char c = d \<and> toLowerCase_char d = d"
proof -
  have "distinct (map fst (zip upper_case lower_case))"
    by (simp add: upper_case_def lower_case_def)
  then have "map_of (zip upper_case lower_case) c = Some d"
    using assms by (rule map_of_is_SomeI)
  then have 1: "toLowerCase_char c = d"
    by (simp add: toLowerCase_char_def)
  have "d \<in> set lower_case"
    using assms by (rule set_zip_rightD)
  moreover have "set lower_case \<inter> set upper_case = {}"
    by (simp add: upper_case_def lower_case_def)
  ultimately have "d \<notin> set upper_case" by blast
  then have "d \<notin> fst ` set (zip upper_case lower_case)"
    by (metis imageE set_zip_leftD prod.collapse)
  then have "map_of (zip upper_case lower_case) d = None"
    by (simp add: map_of_eq_None_iff)
  then have "toLowerCase_char d = d"
    by (simp add: toLowerCase_char_def)
  with 1 show ?thesis by simp
qed

lemma case_variant_lower: "case_variant c d \<Longrightarrow> toLowerCase_char c = toLowerCase_char d"
  unfolding case_variant_def using lower_of_pair by metis

lemma case_variants_lower: "list_all2 case_variant s t \<Longrightarrow> toLowerCase s = toLowerCase t"
  unfolding toLowerCase_def
  by (induction s t rule: list_all2_induct) (simp_all add: case_variant_lower)

lemma method_name_inject: "method_name p = method_name q \<Longrightarrow> p = q"
  by (cases p; cases q) simp_all

lemma dom_initial_context:
  "dom (own (initial_context ps request)) = {''params'', ''url'', ''request''}"
  by (auto simp: initial_context_def)

lemma toLowerCase_method_name: "toLowerCase (method_name verb) = method_name verb"
  by (cases verb)
    (simp_all add: toLowerCase_def toLowerCase_char_def upper_case_def lower_case_def)

lemma lower_of_variant:
  "list_all2 case_variant m (method_name verb) \<Longrightarrow> toLowerCase m = method_name verb"
  using case_variants_lower [of m "method_name verb"] toLowerCase_method_name [of verb]
  by simp

lemma walk_length_mismatch:
  "\<not> has_wildcard pattern \<Longrightarrow> length segments \<noteq> length pattern \<Longrightarrow>
   walk segments pattern ps = None"
proof (induction pattern arbitrary: segments ps)
  case Nil
  then show ?case by simp
next
  case (Cons p pattern)
  have nw: "\<not> has_wildcard pattern"
    using Cons.prems(1) by (auto simp: has_wildcard_def)
  have first: "\<not> (p = ''*'' \<and> pattern = [])"
    using Cons.prems(1) by (auto simp: has_wildcard_def)
  show ?case
  proof (cases segments)
    case Nil
    with first show ?thesis by simp
  next
    case (Cons s rest)
    with Cons.prems(2) have "length rest \<noteq> length pattern" by simp
    then have "walk rest pattern qs = None" for qs
      using Cons.IH [OF nw] by simp
    with first Cons show ?thesis
      by simp
  qed
qed

lemma pure_plugin_const:
  "pure_plugin p \<Longrightarrow> \<exists>out. \<forall>w. p request w = (out, w)"
  unfolding pure_plugin_def by (metis (full_types))

lemma pure_handler_const:
  "pure_handler h \<Longrightarrow> \<exists>out. \<forall>w. h ctx rest w = (out, w)"
  unfolding pure_handler_def by (metis (full_types))

lemma invoke_plugins_const:
  "list_all pure_plugin ps \<Longrightarrow> \<exists>out. \<forall>w. invoke_plugins ps request w = (out, w)"
proof (induction ps)
  case Nil
  then show ?case by simp
next
  case (Cons p ps)
  then obtain o1 where 1: "\<forall>w. p request w = (o1, w)"
    using pure_plugin_const [of p request] by auto
  from Cons obtain o2 where 2: "\<forall>w. invoke_plugins ps request w = (o2, w)"
    by auto
  show ?case
    by (cases o1; cases o2) (simp_all add: 1 2)
qed

lemma route_of_const:
  assumes "pure_registration g"
  shows "\<exists>out. \<forall>w. route_of matcher g segments request rest w = (out, w)"
proof -
  obtain o1 where 1: "\<forall>w. invoke_plugins (reg_plugins g) request w = (o1, w)"
    using assms invoke_plugins_const [of "reg_plugins g" request]
    by (auto simp: pure_registration_def)
  have 2: "\<exists>out. \<forall>w. reg_handler g ctx rest w = (out, w)" for ctx
    using assms pure_handler_const [of "reg_handler g" ctx rest]
    by (simp add: pure_registration_def)
  from 2 obtain H where 3: "\<forall>ctx w. reg_handler g ctx rest w = (H ctx, w)"
    by metis
  have "route_of matcher g segments request rest w
      = (fst (route_of matcher g segments request rest w'), w)" for w w'
    by (simp add: route_of_def route_def 1 3 split: sum.splits option.splits)
  then show ?thesis by blast
qed

lemma try_routes_const:
  "\<forall>g\<in>set gs. pure_registration g \<Longrightarrow>
   \<exists>out. \<forall>w. try_routes (map (route_of matcher) gs) segments request rest w = (out, w)"
proof (induction gs)
  case Nil
  then show ?case by simp
next
  case (Cons g gs)
  then obtain o1 where 1: "\<forall>w. route_of matcher g segments request rest w = (o1, w)"
    using route_of_const [of g matcher segments request rest] by auto
  from Cons obtain o2 where
    2: "\<forall>w. try_routes (map (route_of matcher) gs) segments request rest w = (o2, w)"
    by auto
  have "try_routes (map (route_of matcher) (g # gs)) segments request rest w
      = (fst (try_routes (map (route_of matcher) (g # gs)) segments request rest w'), w)"
    for w w'
    by (simp add: 1 2 split: sum.splits option.splits)
  then show ?case by blast
qed

lemma handle_const:
  assumes "\<forall>g\<in>set gs. pure_registration g"
  shows "\<exists>out. \<forall>w. handle (Router matcher gs) request rest w = (out, w)"
proof -
  obtain o1 where 1: "\<forall>w. try_routes (map (route_of matcher) gs)
      (split CHR ''/'' (pathname (url request))) request rest w = (o1, w)"
    using try_routes_const [OF assms] by blast
  have "handle (Router matcher gs) request rest w
      = (fst (handle (Router matcher gs) request rest w'), w)" for w w'
    by (simp add: handle_def new_URL_def Router_map 1 split: sum.splits option.splits)
  then show ?thesis by blast
qed

subsection \<open>Failures end at the dispatcher\<close>

text \<open>
  C1. \<open>handle\<close> returns a response for every route table, request and world, and never
  throws. When the loop over the routes throws a \<open>Response\<close>, that response is the
  result, unchanged; when it throws an \<open>Error\<close>, the result is a 500 response whose body
  is the error's message; when it throws anything else, the result is a 500 response
  with a null body.
\<close>

theorem handle_always_responds:
  "(\<exists>response w'. handle routes request rest w = (Inr response, w')) \<and>
   (\<forall>r w'. try_routes routes (split CHR ''/'' (pathname (url request))) request rest w
        = (Inl (ThrownResponse r), w')
      \<longrightarrow> handle routes request rest w = (Inr r, w')) \<and>
   (\<forall>message w'. try_routes routes (split CHR ''/'' (pathname (url request))) request rest w
        = (Inl (ThrownError message), w')
      \<longrightarrow> handle routes request rest w
          = (Inr \<lparr>status = 500, body = Some message, headers = []\<rparr>, w')) \<and>
   (\<forall>v w'. try_routes routes (split CHR ''/'' (pathname (url request))) request rest w
        = (Inl (ThrownValue v), w')
      \<longrightarrow> handle routes request rest w
          = (Inr \<lparr>status = 500, body = None, headers = []\<rparr>, w'))"
proof -
  obtain out w1 where t:
    "try_routes routes (split CHR ''/'' (pathname (url request))) request rest w = (out, w1)"
    by (cases "try_routes routes (split CHR ''/'' (pathname (url request))) request rest w")
  have "\<exists>response. handle routes request rest w = (Inr response, w1)"
    using t by (simp add: handle_def new_URL_def split: sum.splits option.splits)
  then show ?thesis
    by (auto simp: handle_def new_URL_def new_Response_def catch_clause_def)
qed

theorem handle_always_responds_witness:
  "try_routes (throwing_router (ThrownResponse teapot))
      (split CHR ''/'' (pathname (url users_me_request))) users_me_request () 0
     = (Inl (ThrownResponse teapot), 1) \<and>
   handle (throwing_router (ThrownResponse teapot)) users_me_request () 0 = (Inr teapot, 1) \<and>
   try_routes (throwing_router (ThrownError ''boom''))
      (split CHR ''/'' (pathname (url users_me_request))) users_me_request () 0
     = (Inl (ThrownError ''boom''), 1) \<and>
   handle (throwing_router (ThrownError ''boom'')) users_me_request () 0
     = (Inr \<lparr>status = 500, body = Some ''boom'', headers = []\<rparr>, 1) \<and>
   try_routes (throwing_router (ThrownValue 42))
      (split CHR ''/'' (pathname (url users_me_request))) users_me_request () 0
     = (Inl (ThrownValue 42), 1) \<and>
   handle (throwing_router (ThrownValue 42)) users_me_request () 0
     = (Inr \<lparr>status = 500, body = None, headers = []\<rparr>, 1)"
proof -
  have h: "try_routes (throwing_router e)
      (split CHR ''/'' (pathname (url users_me_request))) users_me_request () 0 = (Inl e, 1)"
    for e
    by (simp only: segments_users_me try_throwing_router)
  show ?thesis
    using h [of "ThrownResponse teapot"] h [of "ThrownError ''boom''"] h [of "ThrownValue 42"]
      handle_always_responds [of "throwing_router (ThrownResponse teapot)" users_me_request "()" 0]
      handle_always_responds [of "throwing_router (ThrownError ''boom'')" users_me_request "()" 0]
      handle_always_responds [of "throwing_router (ThrownValue 42)" users_me_request "()" 0]
    by simp
qed

subsection \<open>Registration order\<close>

text \<open>
  C3. When every registration before \<open>g\<close> declines the request and \<open>g\<close> matches it
  structurally, dispatching against the whole table is dispatching against \<open>g\<close> alone:
  response and world are the same, whatever is registered after \<open>g\<close>. The witness is the
  table \<open>post /users/:id\<close>, \<open>get /users/:id\<close>, \<open>get /users/me\<close> and the request
  \<open>GET /users/me\<close>, answered by \<open>get /users/:id\<close> although the last route matches too.
\<close>

theorem first_match_wins:
  assumes "\<forall>x\<in>set pre. declines matcher x (split CHR ''/'' (pathname (url request))) request"
    and "structural_match matcher g (split CHR ''/'' (pathname (url request))) request"
  shows "handle (Router matcher (pre @ g # post)) request rest w
           = handle (Router matcher [g]) request rest w"
proof -
  let ?segs = "split CHR ''/'' (pathname (url request))"
  obtain out w' where r: "route_of matcher g ?segs request rest w = (out, w')"
    by (cases "route_of matcher g ?segs request rest w")
  have nn: "out \<noteq> Inr None"
    using structural_match_not_null [OF assms(2), of rest w] r by simp
  have e: "\<forall>x\<in>set []. declines matcher x ?segs request" by simp
  show ?thesis
  proof (cases out)
    case (Inl e')
    with r have r': "route_of matcher g ?segs request rest w = (Inl e', w')" by simp
    show ?thesis
      using handle_first_throw [OF assms(1) r', of post]
        handle_first_throw [OF e r', of "[]"] by simp
  next
    case (Inr a)
    with nn obtain response where "out = Inr (Some response)" by (cases a) auto
    with r have r': "route_of matcher g ?segs request rest w = (Inr (Some response), w')"
      by simp
    show ?thesis
      using handle_first_answer [OF assms(1) r', of post]
        handle_first_answer [OF e r', of "[]"] by simp
  qed
qed

theorem first_match_wins_witness:
  "declines imported_match users_post
      (split CHR ''/'' (pathname (url users_me_request))) users_me_request \<and>
   structural_match imported_match users_by_id
      (split CHR ''/'' (pathname (url users_me_request))) users_me_request \<and>
   structural_match imported_match users_me
      (split CHR ''/'' (pathname (url users_me_request))) users_me_request \<and>
   handle (Router imported_match ([users_post] @ users_by_id # [users_me])) users_me_request () 0
     = (Inr \<lparr>status = 200, body = Some ''me'', headers = []\<rparr>, 1)"
proof -
  let ?segs = "split CHR ''/'' (pathname (url users_me_request))"
  have d: "\<forall>x\<in>set [users_post]. declines imported_match x ?segs users_me_request"
    by (simp add: declines_def method_accepted_def users_post_def method_users_me lower_GET)
  have m: "structural_match imported_match users_by_id ?segs users_me_request"
    by (simp add: structural_match_def method_accepted_def users_by_id_def method_users_me
        lower_GET segments_users_me imported_match_def match_users_id_me)
  have m': "structural_match imported_match users_me ?segs users_me_request"
    by (simp add: structural_match_def method_accepted_def users_me_def method_users_me
        lower_GET segments_users_me imported_match_def match_def has_wildcard_def)
  have one: "handle (Router imported_match [users_by_id]) users_me_request () 0
      = (Inr \<lparr>status = 200, body = Some ''me'', headers = []\<rparr>, 1)"
    by (simp add: handle_def new_URL_def segments_users_me Router_map route_of_def route_def
        users_by_id_def method_users_me lower_GET imported_match_def match_users_id_me
        Promise_all_def by_id_handler_def initial_context_def get_def)
  show ?thesis
    using d m m' one first_match_wins [OF d m, of "[users_me]" "()" 0] by simp
qed

subsection \<open>The handler owns the response\<close>

text \<open>
  C7. Let every registration before \<open>g\<close> decline the request, let \<open>g\<close> match it and its
  plugins contribute fields only, so that the handler of \<open>g\<close> is called, in world \<open>w1\<close>
  with context \<open>ctx\<close>, and let that one call end in world \<open>w2\<close> with \<open>out\<close>, a response
  or a throw. Then the dispatch ends in \<open>w2\<close> as well, and its response is \<open>out\<close> itself
  or what the catch clause makes of the throw. Nothing runs after the handler: not the
  handler again, and none of the routes after \<open>g\<close>, whatever they are.
\<close>

theorem handler_owns_response:
  assumes "\<forall>x\<in>set pre. declines matcher x (split CHR ''/'' (pathname (url request))) request"
    and "method_accepted (reg_method g) request"
    and "matcher (split CHR ''/'' (pathname (url request))) (split CHR ''/'' (reg_pattern g))
           = Inr (Some ps)"
    and "invoke_plugins (reg_plugins g) request w = (Inr promises, w1)"
    and "Promise_all promises = Inr results"
    and "inspect_results results (initial_context ps request) = Inr ctx"
    and "reg_handler g ctx rest w1 = (out, w2)"
  shows "handle (Router matcher (pre @ g # post)) request rest w
           = (Inr (case out of Inl e \<Rightarrow> catch_clause e | Inr r \<Rightarrow> r), w2)"
  using handle_handler_outcome [where matcher = matcher, OF assms, of post] .

theorem handler_owns_response_witness:
  "declines imported_match users_post
      (split CHR ''/'' (pathname (url users_me_request))) users_me_request \<and>
   method_accepted (reg_method (users_throwing (ThrownError ''boom''))) users_me_request \<and>
   reg_handler (users_throwing (ThrownError ''boom''))
      (initial_context [''id'' \<mapsto> ''me''] users_me_request) () 0
     = (Inl (ThrownError ''boom''), 1) \<and>
   structural_match imported_match users_me
      (split CHR ''/'' (pathname (url users_me_request))) users_me_request \<and>
   handle (Router imported_match ([users_post] @ users_throwing (ThrownError ''boom'') # [users_me]))
      users_me_request () 0
     = (Inr \<lparr>status = 500, body = Some ''boom'', headers = []\<rparr>, 1)"
proof -
  let ?segs = "split CHR ''/'' (pathname (url users_me_request))"
  let ?g = "users_throwing (ThrownError ''boom'') :: (nat, unit, nat) registration"
  have d: "\<forall>x\<in>set [users_post]. declines imported_match x ?segs users_me_request"
    by (simp add: declines_def method_accepted_def users_post_def method_users_me lower_GET)
  have a: "method_accepted (reg_method ?g) users_me_request"
    by (simp add: method_accepted_def users_throwing_def method_users_me lower_GET)
  have m: "imported_match ?segs (split CHR ''/'' (reg_pattern ?g)) = Inr (Some [''id'' \<mapsto> ''me''])"
    by (simp add: users_throwing_def segments_users_me imported_match_def match_users_id_me)
  have p: "invoke_plugins (reg_plugins ?g) users_me_request 0 = (Inr [], 0)"
    by (simp add: users_throwing_def)
  have q: "Promise_all [] = Inr []"
    by (simp add: Promise_all_def)
  have i: "inspect_results [] (initial_context [''id'' \<mapsto> ''me''] users_me_request)
      = Inr (initial_context [''id'' \<mapsto> ''me''] users_me_request)"
    by simp
  have h: "reg_handler ?g (initial_context [''id'' \<mapsto> ''me''] users_me_request) () 0
      = (Inl (ThrownError ''boom''), 1)"
    by (simp add: users_throwing_def throwing_handler_def)
  have m': "structural_match imported_match users_me ?segs users_me_request"
    by (simp add: structural_match_def method_accepted_def users_me_def method_users_me
        lower_GET segments_users_me imported_match_def match_def has_wildcard_def)
  show ?thesis
    using d a h m'
      handler_owns_response [where matcher = imported_match, OF d a m p q i h, of "[users_me]"]
    by (simp add: catch_clause_def new_Response_def)
qed

subsection \<open>The fallback response\<close>

text \<open>
  C2, as the code has it. When every registration declines the request, \<open>handle\<close>
  returns a 500 response with a null body and leaves the world alone. When the handler
  of a matched route throws a value that is neither a \<open>Response\<close> nor an \<open>Error\<close>,
  \<open>handle\<close> returns a 500 response with a null body too: the two responses have the
  same status and the same body.
\<close>

theorem fallback_same_as_opaque_failure:
  assumes "\<forall>x\<in>set gs. declines matcher x (split CHR ''/'' (pathname (url request))) request"
    and "\<forall>x\<in>set pre. declines matcher' x (split CHR ''/'' (pathname (url request'))) request'"
    and "method_accepted (reg_method g) request'"
    and "matcher' (split CHR ''/'' (pathname (url request'))) (split CHR ''/'' (reg_pattern g))
           = Inr (Some ps)"
    and "invoke_plugins (reg_plugins g) request' w' = (Inr promises, w1)"
    and "Promise_all promises = Inr results"
    and "inspect_results results (initial_context ps request') = Inr ctx"
    and "reg_handler g ctx rest' w1 = (Inl (ThrownValue v), w2)"
  shows "handle (Router matcher gs) request rest w
           = (Inr \<lparr>status = 500, body = None, headers = []\<rparr>, w) \<and>
         handle (Router matcher' (pre @ g # post)) request' rest' w'
           = (Inr \<lparr>status = 500, body = None, headers = []\<rparr>, w2)"
  using handle_no_match [OF assms(1), of rest w]
    handle_handler_outcome [where matcher = matcher', OF assms(2-8), of post]
  by (simp add: new_Response_def catch_clause_def)

theorem fallback_same_as_opaque_failure_witness:
  "declines imported_match users_post
      (split CHR ''/'' (pathname (url users_me_request))) users_me_request \<and>
   reg_handler (users_throwing (ThrownValue 42))
      (initial_context [''id'' \<mapsto> ''me''] users_me_request) () 0
     = (Inl (ThrownValue 42), 1) \<and>
   handle (Router imported_match [users_post]) users_me_request () 0
     = (Inr \<lparr>status = 500, body = None, headers = []\<rparr>, 0) \<and>
   handle (Router imported_match ([users_post] @ users_throwing (ThrownValue 42) # [users_me]))
      users_me_request () 0
     = (Inr \<lparr>status = 500, body = None, headers = []\<rparr>, 1)"
proof -
  let ?segs = "split CHR ''/'' (pathname (url users_me_request))"
  let ?g = "users_throwing (ThrownValue 42) :: (nat, unit, nat) registration"
  have d: "\<forall>x\<in>set [users_post]. declines imported_match x ?segs users_me_request"
    by (simp add: declines_def method_accepted_def users_post_def method_users_me lower_GET)
  have a: "method_accepted (reg_method ?g) users_me_request"
    by (simp add: method_accepted_def users_throwing_def method_users_me lower_GET)
  have m: "imported_match ?segs (split CHR ''/'' (reg_pattern ?g)) = Inr (Some [''id'' \<mapsto> ''me''])"
    by (simp add: users_throwing_def segments_users_me imported_match_def match_users_id_me)
  have p: "invoke_plugins (reg_plugins ?g) users_me_request 0 = (Inr [], 0)"
    by (simp add: users_throwing_def)
  have q: "Promise_all [] = Inr []"
    by (simp add: Promise_all_def)
  have i: "inspect_results [] (initial_context [''id'' \<mapsto> ''me''] users_me_request)
      = Inr (initial_context [''id'' \<mapsto> ''me''] users_me_request)"
    by simp
  have h: "reg_handler ?g (initial_context [''id'' \<mapsto> ''me''] users_me_request) () 0
      = (Inl (ThrownValue 42), 1)"
    by (simp add: users_throwing_def throwing_handler_def)
  show ?thesis
    using d h
      fallback_same_as_opaque_failure [where matcher = imported_match
        and matcher' = imported_match and rest = "()" and w = 0, OF d d a m p q i h, of "[users_me]"]
    by simp
qed

text \<open>
  C2 as the spec states it fails: for the request \<open>GET /users/me\<close>, the table that holds
  only \<open>post /users/:id\<close> (no route matches) and the table whose matched handler throws
  the number 42 give responses equal in status, body and headers.
\<close>

theorem fallback_distinguishable_counterexample:
  "fst (handle (Router imported_match [users_post]) users_me_request () 0)
     = Inr \<lparr>status = 500, body = None, headers = []\<rparr> \<and>
   fst (handle (throwing_router (ThrownValue 42)) users_me_request () 0)
     = Inr \<lparr>status = 500, body = None, headers = []\<rparr> \<and>
   fst (handle (Router imported_match [users_post]) users_me_request () 0)
     = fst (handle (throwing_router (ThrownValue 42)) users_me_request () 0)"
proof -
  have 1: "handle (Router imported_match [users_post]) users_me_request () 0
      = (Inr \<lparr>status = 500, body = None, headers = []\<rparr>, 0)"
    by (simp add: handle_def new_URL_def segments_users_me Router_map route_of_def route_def
        users_post_def method_users_me lower_GET new_Response_def)
  have 2: "handle (throwing_router (ThrownValue 42)) users_me_request () 0
      = (Inr \<lparr>status = 500, body = None, headers = []\<rparr>, 1)"
    by (simp add: handle_def new_URL_def segments_users_me try_throwing_router
        catch_clause_def new_Response_def)
  show ?thesis by (simp add: 1 2)
qed

subsection \<open>The plugin pipeline\<close>

text \<open>
  C4. Let every registration before \<open>g\<close> decline the request and \<open>g\<close> match it, and let
  all plugin promises of \<open>g\<close> be fulfilled, the first of them in declaration order that
  holds a \<open>Response\<close> holding \<open>r\<close>. Then the route answers \<open>r\<close> and so does the dispatch,
  in the world the plugin calls left, so the handler has not run. The instants at which
  the promises settled are arbitrary: they do not enter the result.
\<close>

theorem first_declared_response_wins:
  assumes "\<forall>x\<in>set pre. declines matcher x (split CHR ''/'' (pathname (url request))) request"
    and "method_accepted (reg_method g) request"
    and "matcher (split CHR ''/'' (pathname (url request))) (split CHR ''/'' (reg_pattern g))
           = Inr (Some ps)"
    and "invoke_plugins (reg_plugins g) request w = (Inr promises, w1)"
    and "map snd promises = map Fulfilled (map Fields fs @ IsResponse r # later)"
  shows "route_of matcher g (split CHR ''/'' (pathname (url request))) request rest w
           = (Inr (Some r), w1) \<and>
         handle (Router matcher (pre @ g # post)) request rest w = (Inr r, w1)"
proof -
  have "route_of matcher g (split CHR ''/'' (pathname (url request))) request rest w
          = (Inr (Some r), w1)"
    using route_of_plugin_response
      [where matcher = matcher and segments = "split CHR ''/'' (pathname (url request))",
        OF assms(2-5)] .
  with handle_first_answer [OF assms(1) this, of post] show ?thesis by simp
qed

theorem first_declared_response_wins_witness:
  "invoke_plugins (reg_plugins users_guarded) users_me_request 0
     = (Inr [(9, Fulfilled (Fields [''user'' \<mapsto> Any 1])),
             (5, Fulfilled (IsResponse forbidden)),
             (1, Fulfilled (IsResponse teapot))], 3) \<and>
   handle (Router imported_match ([users_post] @ users_guarded # [users_me])) users_me_request () 0
     = (Inr forbidden, 3)"
proof -
  let ?segs = "split CHR ''/'' (pathname (url users_me_request))"
  let ?promises = "[(9, Fulfilled (Fields [''user'' \<mapsto> Any 1])),
             (5, Fulfilled (IsResponse forbidden)),
             (1, Fulfilled (IsResponse teapot))] :: (nat \<times> nat settled) list"
  have d: "\<forall>x\<in>set [users_post]. declines imported_match x ?segs users_me_request"
    by (simp add: declines_def method_accepted_def users_post_def method_users_me lower_GET)
  have a: "method_accepted (reg_method users_guarded) users_me_request"
    by (simp add: method_accepted_def users_guarded_def method_users_me lower_GET)
  have m: "imported_match ?segs (split CHR ''/'' (reg_pattern users_guarded))
      = Inr (Some [''id'' \<mapsto> ''me''])"
    by (simp add: users_guarded_def segments_users_me imported_match_def match_users_id_me)
  have p: "invoke_plugins (reg_plugins users_guarded) users_me_request 0 = (Inr ?promises, 3)"
    by (simp add: users_guarded_def fields_plugin_def response_plugin_def)
  have s: "map snd ?promises
      = map Fulfilled (map Fields [[''user'' \<mapsto> Any 1]] @ IsResponse forbidden # [IsResponse teapot])"
    by simp
  show ?thesis
    using p first_declared_response_wins
      [where matcher = imported_match and post = "[users_me]" and rest = "()", OF d a m p s]
    by simp
qed




subsection \<open>Reserved keys of the context\<close>

text \<open>
  C10, as the code has it. Let \<open>g\<close> match the request and all its plugin promises be
  fulfilled with fields, \<open>fs\<close> in declaration order, and let \<open>ctx\<close> be the context the
  handler is called with. Before the merge the context has the own properties
  \<open>params\<close>, \<open>url\<close> and \<open>request\<close> and no other, and its prototype is
  \<open>Object.prototype\<close>. A plugin that gives one of these three keys a value replaces the
  reserved value: \<open>ctx\<close> holds the value of the last plugin that gives the key one. A key
  other than \<open>__proto__\<close> that no plugin mentions is in \<open>ctx\<close> the own property it was
  before the merge, or none; so the three reserved keys, when no plugin mentions them,
  read as the captured parameters, the parsed url and the request. When no plugin's
  record has an own key \<open>__proto__\<close>, every key that no plugin mentions reads in \<open>ctx\<close>
  as it did before the merge.
\<close>

theorem plugin_fields_replace_reserved_keys:
  fixes g :: "('v, 'r, 'w) registration"
  assumes "method_accepted (reg_method g) request"
    and "matcher segments (split CHR ''/'' (reg_pattern g)) = Inr (Some ps)"
    and "invoke_plugins (reg_plugins g) request w = (Inr promises, w1)"
    and "map snd promises = map Fulfilled (map Fields fs)"
    and "ctx = foldl Object_assign (initial_context ps request) fs"
  shows "route_of matcher g segments request rest w =
           (case reg_handler g ctx rest w1 of
              (Inl e, w2) \<Rightarrow> (Inl e, w2)
            | (Inr r, w2) \<Rightarrow> (Inr (Some r), w2)) \<and>
         dom (own (initial_context ps request :: 'v handler_context))
           = {''params'', ''url'', ''request''} \<and>
         proto (initial_context ps request :: 'v handler_context) = Object_prototype \<and>
         (\<forall>k\<in>{''params'', ''url'', ''request''}. \<forall>i v.
             i < length fs \<and> (fs ! i) k = Some v \<and>
             (\<forall>j. i < j \<and> j < length fs \<longrightarrow> (fs ! j) k = None)
            \<longrightarrow> own ctx k = Some (Data v) \<and> get ctx k = Some (Data v)) \<and>
         (\<forall>k. k \<noteq> ''__proto__'' \<and> (\<forall>f\<in>set fs. f k = None)
            \<longrightarrow> own ctx k = own (initial_context ps request) k) \<and>
         ((\<forall>f\<in>set fs. f ''__proto__'' = None) \<longrightarrow>
            (\<forall>k. (\<forall>f\<in>set fs. f k = None) \<longrightarrow> get ctx k = get (initial_context ps request) k)) \<and>
         ((\<forall>f\<in>set fs. f ''params'' = None) \<longrightarrow> get ctx ''params'' = Some (Params ps)) \<and>
         ((\<forall>f\<in>set fs. f ''url'' = None) \<longrightarrow> get ctx ''url'' = Some (Url (url request))) \<and>
         ((\<forall>f\<in>set fs. f ''request'' = None) \<longrightarrow> get ctx ''request'' = Some (Req request))"
proof -
  let ?c0 = "initial_context ps request :: 'v handler_context"
  have 1: "route_of matcher g segments request rest w =
           (case reg_handler g ctx rest w1 of
              (Inl e, w2) \<Rightarrow> (Inl e, w2)
            | (Inr r, w2) \<Rightarrow> (Inr (Some r), w2))"
    unfolding assms(5)
    using route_of_plugin_fields [where matcher = matcher and segments = segments, OF assms(1-4)] .
  have 2: "\<forall>k. k \<noteq> ''__proto__'' \<and> (\<forall>f\<in>set fs. f k = None) \<longrightarrow> own ctx k = own ?c0 k"
    unfolding assms(5) using assigned_unmentioned by blast
  have 3: "\<forall>k\<in>{''params'', ''url'', ''request''}. \<forall>i v.
             i < length fs \<and> (fs ! i) k = Some v \<and>
             (\<forall>j. i < j \<and> j < length fs \<longrightarrow> (fs ! j) k = None)
            \<longrightarrow> own ctx k = Some (Data v) \<and> get ctx k = Some (Data v)"
  proof (intro ballI allI impI)
    fix k i v
    assume k: "k \<in> {''params'', ''url'', ''request''}"
      and l: "i < length fs \<and> (fs ! i) k = Some v \<and>
             (\<forall>j. i < j \<and> j < length fs \<longrightarrow> (fs ! j) k = None)"
    from k have "k \<noteq> ''__proto__''" by auto
    with l have "own ctx k = Some (Data v)"
      unfolding assms(5) using assigned_last [of k i fs v ?c0] by blast
    then show "own ctx k = Some (Data v) \<and> get ctx k = Some (Data v)"
      by (simp add: get_own)
  qed
  have 4: "(\<forall>f\<in>set fs. f ''__proto__'' = None) \<longrightarrow>
            (\<forall>k. (\<forall>f\<in>set fs. f k = None) \<longrightarrow> get ctx k = get ?c0 k)"
    unfolding assms(5) using read_unmentioned by blast
  have 5: "own ?c0 ''params'' = Some (Params ps)"
    "own ?c0 ''url'' = Some (Url (url request))"
    "own ?c0 ''request'' = Some (Req request)"
    by (simp_all add: initial_context_def new_URL_def)
  have 6: "(\<forall>f\<in>set fs. f ''params'' = None) \<longrightarrow> get ctx ''params'' = Some (Params ps)"
    "(\<forall>f\<in>set fs. f ''url'' = None) \<longrightarrow> get ctx ''url'' = Some (Url (url request))"
    "(\<forall>f\<in>set fs. f ''request'' = None) \<longrightarrow> get ctx ''request'' = Some (Req request)"
    using 2 5 by (simp_all add: get_own)
  have 7: "proto ?c0 = Object_prototype"
    by (simp add: initial_context_def)
  show ?thesis
    using 1 2 3 4 6 7 dom_initial_context [of ps request, where ?'a = 'v] by blast
qed

theorem plugin_fields_replace_reserved_keys_witness:
  "get (initial_context [''id'' \<mapsto> ''me''] users_me_request) ''params''
     = Some (Params [''id'' \<mapsto> ''me''] :: nat val) \<and>
   get (foldl Object_assign (initial_context [''id'' \<mapsto> ''me''] users_me_request)
      [[''params'' \<mapsto> Any 3]]) ''params''
     = Some (Data (Any (3::nat))) \<and>
   get (foldl Object_assign (initial_context [''id'' \<mapsto> ''me''] users_me_request)
      [[''params'' \<mapsto> Any (3::nat)]]) ''url''
     = Some (Url (url users_me_request)) \<and>
   get (foldl Object_assign (initial_context [''id'' \<mapsto> ''me''] users_me_request)
      [[''params'' \<mapsto> Any (3::nat)]]) ''user''
     = get (initial_context [''id'' \<mapsto> ''me''] users_me_request) ''user'' \<and>
   route_of imported_match users_overridden
      (split CHR ''/'' (pathname (url users_me_request))) users_me_request () 0
     = (Inr (Some \<lparr>status = 200, body = Some ''***/url/request/-'', headers = []\<rparr>), 2)"
proof -
  let ?segs = "split CHR ''/'' (pathname (url users_me_request))"
  let ?f = "[''params'' \<mapsto> Any 3] :: string \<rightharpoonup> nat data"
  let ?c0 = "initial_context [''id'' \<mapsto> ''me''] users_me_request :: nat handler_context"
  let ?ctx = "foldl Object_assign ?c0 [?f]"
  have a: "method_accepted (reg_method users_overridden) users_me_request"
    by (simp add: method_accepted_def users_overridden_def method_users_me lower_GET)
  have m: "imported_match ?segs (split CHR ''/'' (reg_pattern users_overridden))
      = Inr (Some [''id'' \<mapsto> ''me''])"
    by (simp add: users_overridden_def segments_users_me imported_match_def match_users_id_me)
  have p: "invoke_plugins (reg_plugins users_overridden) users_me_request 0
      = (Inr [(0, Fulfilled (Fields ?f))], 1)"
    by (simp add: users_overridden_def fields_plugin_def)
  have s: "map snd [(0::nat, Fulfilled (Fields ?f))] = map Fulfilled (map Fields [?f])"
    by simp
  have l: "(0::nat) < length [?f] \<and> ([?f] ! 0) ''params'' = Some (Any 3) \<and>
      (\<forall>j. 0 < j \<and> j < length [?f] \<longrightarrow> ([?f] ! j) ''params'' = None)"
    by auto
  have u: "\<forall>f\<in>set [?f]. f ''url'' = None"
    by simp
  have n: "\<forall>f\<in>set [?f]. f ''__proto__'' = None"
    by simp
  have n': "\<forall>f\<in>set [?f]. f ''user'' = None"
    by simp
  have i: "get ?c0 ''params'' = Some (Params [''id'' \<mapsto> ''me''])"
    by (simp add: initial_context_def get_def)
  have r1: "get ?ctx ''params'' = Some (Data (Any 3))"
    by (rule get_own) (simp add: own_Object_assign)
  have r2: "get ?ctx ''url'' = Some (Url (url users_me_request))"
    by (rule get_own) (simp add: own_Object_assign initial_context_def new_URL_def)
  have r3: "get ?ctx ''request'' = Some (Req users_me_request)"
    by (rule get_own) (simp add: own_Object_assign initial_context_def)
  have r0: "get ?c0 ''user'' = None"
    by (simp add: initial_context_def get_def from_Object_prototype_def
        Object_prototype_names_def)
  have r4: "get ?ctx ''user'' = None"
    using read_unmentioned [OF n n', of ?c0] r0 by simp
  have h: "reg_handler users_overridden ?ctx () 1
      = (Inr \<lparr>status = 200, body = Some ''***/url/request/-'', headers = []\<rparr>, 2)"
    by (simp add: users_overridden_def echo_handler_def r1 r2 r3 r4 stars
        del: foldl.simps One_nat_def)
  note t = plugin_fields_replace_reserved_keys
    [where matcher = imported_match and segments = ?segs and ctx = ?ctx, OF a m p s refl, of "()"]
  note t2 = t [THEN conjunct2]
  note t4 = t2 [THEN conjunct2, THEN conjunct2]
  note t6 = t4 [THEN conjunct2, THEN conjunct2]
  note t8 = t6 [THEN conjunct2, THEN conjunct2]
  have "get ?ctx ''params'' = Some (Data (Any 3))"
    using t4 [THEN conjunct1, rule_format, of "''params''" 0 "Any 3"] l
    by (simp del: foldl.simps)
  moreover have "get ?ctx ''url'' = Some (Url (url users_me_request))"
    using t8 [THEN conjunct1] u by (simp del: foldl.simps)
  moreover have "get ?ctx ''user'' = get ?c0 ''user''"
    using t6 [THEN conjunct1, rule_format, of "''user''"] n n' by (simp del: foldl.simps)
  moreover have "route_of imported_match users_overridden ?segs users_me_request () 0
     = (Inr (Some \<lparr>status = 200, body = Some ''***/url/request/-'', headers = []\<rparr>), 2)"
    using t [THEN conjunct1] h by (simp del: foldl.simps)
  ultimately show ?thesis using i by (simp del: foldl.simps)
qed

text \<open>
  C10 as the spec states it fails when a plugin's record has an own key \<open>__proto__\<close>. The
  plugin of \<open>users_proto_object\<close> returns the record that gives \<open>__proto__\<close> an object with
  the field \<open>user\<close>, and it is the only plugin. No plugin mentions the key \<open>user\<close>, and
  before the merge a read of \<open>user\<close> gives \<open>undefined\<close>; in the context the handler is
  called with it gives 2, from the context's new prototype.
\<close>

theorem unmentioned_key_unchanged_counterexample:
  "invoke_plugins (reg_plugins users_proto_object) users_me_request 0
     = (Inr [(0, Fulfilled (Fields [''__proto__'' \<mapsto> Object [''user'' \<mapsto> Any 2]]))], 1) \<and>
   [''__proto__'' \<mapsto> Object [''user'' \<mapsto> Any (2::nat)]] ''user'' = None \<and>
   get (initial_context [''id'' \<mapsto> ''me''] users_me_request :: nat handler_context) ''user''
     = None \<and>
   get (foldl Object_assign (initial_context [''id'' \<mapsto> ''me''] users_me_request)
      [[''__proto__'' \<mapsto> Object [''user'' \<mapsto> Any (2::nat)]]]) ''user'' = Some (Data (Any 2)) \<and>
   route_of imported_match users_proto_object
      (split CHR ''/'' (pathname (url users_me_request))) users_me_request () 0
     = (Inr (Some \<lparr>status = 200, body = Some ''**/params'', headers = []\<rparr>), 2)"
proof -
  let ?segs = "split CHR ''/'' (pathname (url users_me_request))"
  let ?f = "[''__proto__'' \<mapsto> Object [''user'' \<mapsto> Any 2]] :: string \<rightharpoonup> nat data"
  let ?c0 = "initial_context [''id'' \<mapsto> ''me''] users_me_request :: nat handler_context"
  let ?ctx = "foldl Object_assign ?c0 [?f]"
  have a: "method_accepted (reg_method users_proto_object) users_me_request"
    by (simp add: method_accepted_def users_proto_object_def method_users_me lower_GET)
  have m: "imported_match ?segs (split CHR ''/'' (reg_pattern users_proto_object))
      = Inr (Some [''id'' \<mapsto> ''me''])"
    by (simp add: users_proto_object_def segments_users_me imported_match_def match_users_id_me)
  have p: "invoke_plugins (reg_plugins users_proto_object) users_me_request 0
      = (Inr [(0, Fulfilled (Fields ?f))], 1)"
    by (simp add: users_proto_object_def fields_plugin_def)
  have s: "map snd [(0::nat, Fulfilled (Fields ?f))] = map Fulfilled (map Fields [?f])"
    by simp
  have u: "?f ''user'' = None"
    by simp
  have r0: "get ?c0 ''user'' = None"
    by (simp add: initial_context_def get_def from_Object_prototype_def
        Object_prototype_names_def)
  have o: "own ?ctx ''user'' = None"
    by (simp add: own_Object_assign initial_context_def)
  have q: "proto ?ctx = Object [''user'' \<mapsto> Any 2]"
    by (simp add: Object_assign_def inherits_proto_setter_def initial_context_def Let_def)
  have r1: "get ?ctx ''user'' = Some (Data (Any 2))"
    using o q by (simp add: get_def del: foldl.simps)
  have r2: "get ?ctx ''params'' = Some (Params [''id'' \<mapsto> ''me''])"
    by (rule get_own) (simp add: own_Object_assign initial_context_def)
  have h: "reg_handler users_proto_object ?ctx () 1
      = (Inr \<lparr>status = 200, body = Some ''**/params'', headers = []\<rparr>, 2)"
    by (simp add: users_proto_object_def echo_handler_def r1 r2 stars
        del: foldl.simps One_nat_def)
  have "route_of imported_match users_proto_object ?segs users_me_request () 0
     = (Inr (Some \<lparr>status = 200, body = Some ''**/params'', headers = []\<rparr>), 2)"
    using route_of_plugin_fields
      [where matcher = imported_match and segments = ?segs, OF a m p s, of "()"] h
    by simp
  then show ?thesis using p u r0 r1 by simp
qed

subsection \<open>The method test\<close>

text \<open>
  C6. A route whose property is not \<open>all\<close> and differs from the request's method in lower
  case answers \<open>null\<close> and leaves the world alone, whatever the matcher is, also one that
  would throw: the matcher is not called. When the method is accepted the matcher is
  called: a matcher that throws makes the route throw. So a route registered under one
  verb answers \<open>null\<close> to a request whose method is another verb, written in whatever
  case, without calling the matcher; it calls the matcher for a request whose method is
  its own verb, written in whatever case; and a route registered under \<open>all\<close> calls the
  matcher for every request. Two requests whose methods differ only in the case of their
  letters are accepted or refused alike.
\<close>

theorem method_gate:
  "(property \<noteq> All \<and> toLowerCase (http_method request) \<noteq> method_name property
      \<longrightarrow> route matcher property pattern plugins h segments request rest w = (Inr None, w)) \<and>
   (method_accepted property request
      \<longrightarrow> route (\<lambda>s p. Inl e) property pattern plugins h segments request rest w = (Inl e, w)) \<and>
   (property \<noteq> All \<and> verb \<noteq> property \<and> toLowerCase (http_method request) = method_name verb
      \<longrightarrow> route matcher property pattern plugins h segments request rest w = (Inr None, w)) \<and>
   (list_all2 case_variant (http_method request) (http_method request')
      \<longrightarrow> method_accepted property request = method_accepted property request') \<and>
   method_accepted All request \<and>
   (property \<noteq> All \<and> verb \<noteq> property \<and>
    list_all2 case_variant (http_method request) (method_name verb)
      \<longrightarrow> route matcher property pattern plugins h segments request rest w = (Inr None, w)) \<and>
   (list_all2 case_variant (http_method request) (method_name property)
      \<longrightarrow> route (\<lambda>s p. Inl e) property pattern plugins h segments request rest w = (Inl e, w)) \<and>
   route (\<lambda>s p. Inl e) All pattern plugins h segments request rest w = (Inl e, w)"
proof (intro conjI impI)
  assume "property \<noteq> All \<and> toLowerCase (http_method request) \<noteq> method_name property"
  then show "route matcher property pattern plugins h segments request rest w = (Inr None, w)"
    by (simp add: route_def)
next
  assume "method_accepted property request"
  then show "route (\<lambda>s p. Inl e) property pattern plugins h segments request rest w = (Inl e, w)"
    by (auto simp: route_def method_accepted_def)
next
  assume a: "property \<noteq> All \<and> verb \<noteq> property \<and>
    toLowerCase (http_method request) = method_name verb"
  then have "toLowerCase (http_method request) \<noteq> method_name property"
    using method_name_inject by metis
  with a show "route matcher property pattern plugins h segments request rest w = (Inr None, w)"
    by (simp add: route_def)
next
  assume "list_all2 case_variant (http_method request) (http_method request')"
  then have "toLowerCase (http_method request) = toLowerCase (http_method request')"
    by (rule case_variants_lower)
  then show "method_accepted property request = method_accepted property request'"
    by (simp add: method_accepted_def)
next
  show "method_accepted All request"
    by (simp add: method_accepted_def)
next
  assume a: "property \<noteq> All \<and> verb \<noteq> property \<and>
    list_all2 case_variant (http_method request) (method_name verb)"
  then have "toLowerCase (http_method request) = method_name verb"
    using lower_of_variant by blast
  with a have "toLowerCase (http_method request) \<noteq> method_name property"
    using method_name_inject by metis
  with a show "route matcher property pattern plugins h segments request rest w = (Inr None, w)"
    by (simp add: route_def)
next
  assume "list_all2 case_variant (http_method request) (method_name property)"
  then have "toLowerCase (http_method request) = method_name property"
    by (rule lower_of_variant)
  then show "route (\<lambda>s p. Inl e) property pattern plugins h segments request rest w = (Inl e, w)"
    by (simp add: route_def)
next
  show "route (\<lambda>s p. Inl e) All pattern plugins h segments request rest w = (Inl e, w)"
    by (simp add: route_def)
qed

theorem method_gate_witness:
  "route alarm_matcher Post ''/users/:id'' [] by_id_handler ['''', ''users'', ''me'']
      users_me_request () 0 = (Inr None, 0) \<and>
   route alarm_matcher Get ''/users/:id'' [] by_id_handler ['''', ''users'', ''me'']
      mixed_case_request () 0 = (Inl (ThrownError ''matcher called''), 0) \<and>
   route alarm_matcher All ''/users/:id'' [] by_id_handler ['''', ''users'', ''me'']
      users_me_request () 0 = (Inl (ThrownError ''matcher called''), 0) \<and>
   list_all2 case_variant (http_method mixed_case_request) (http_method users_me_request) \<and>
   method_accepted Get mixed_case_request \<and>
   method_accepted Get users_me_request \<and>
   list_all2 case_variant (http_method post_request) (method_name Post) \<and>
   route alarm_matcher Get ''/users/:id'' [] by_id_handler ['''', ''users'', ''me'']
      post_request () 0 = (Inr None, 0) \<and>
   list_all2 case_variant (http_method mixed_case_request) (method_name Get) \<and>
   route alarm_matcher Post ''/users/:id'' [] by_id_handler ['''', ''users'', ''me'']
      mixed_case_request () 0 = (Inr None, 0)"
proof -
  have v: "list_all2 case_variant (http_method mixed_case_request) (http_method users_me_request)"
    by (simp add: mixed_case_request_def users_me_request_def case_variant_def
        upper_case_def lower_case_def)
  have vp: "list_all2 case_variant (http_method post_request) (method_name Post)"
    by (simp add: post_request_def users_me_request_def case_variant_def
        upper_case_def lower_case_def)
  have vg: "list_all2 case_variant (http_method mixed_case_request) (method_name Get)"
    by (simp add: mixed_case_request_def users_me_request_def case_variant_def
        upper_case_def lower_case_def)
  have g: "method_accepted Get users_me_request"
    by (simp add: method_accepted_def method_users_me lower_GET)
  have k: "alarm_matcher = (\<lambda>s p. Inl (ThrownError ''matcher called''))"
    by (simp add: alarm_matcher_def fun_eq_iff)
  note t1 = method_gate [where property = Post and request = users_me_request
      and matcher = alarm_matcher and verb = Get and pattern = "''/users/:id''"
      and plugins = "[]" and h = by_id_handler and segments = "['''', ''users'', ''me'']"
      and rest = "()" and w = 0]
  note t2 = method_gate [where property = Get and request = mixed_case_request
      and request' = users_me_request and e = "ThrownError ''matcher called''"
      and pattern = "''/users/:id''"
      and plugins = "[]" and h = by_id_handler and segments = "['''', ''users'', ''me'']"
      and rest = "()" and w = 0]
  note t3 = method_gate [where property = All and request = users_me_request
      and e = "ThrownError ''matcher called''" and pattern = "''/users/:id''"
      and plugins = "[]" and h = by_id_handler and segments = "['''', ''users'', ''me'']"
      and rest = "()" and w = 0]
  note t4 = method_gate [where property = Get and request = post_request
      and matcher = alarm_matcher and verb = Post and pattern = "''/users/:id''"
      and plugins = "[]" and h = by_id_handler and segments = "['''', ''users'', ''me'']"
      and rest = "()" and w = 0]
  note t5 = method_gate [where property = Post and request = mixed_case_request
      and matcher = alarm_matcher and verb = Get and pattern = "''/users/:id''"
      and plugins = "[]" and h = by_id_handler and segments = "['''', ''users'', ''me'']"
      and rest = "()" and w = 0]
  have 1: "route alarm_matcher Post ''/users/:id'' [] by_id_handler ['''', ''users'', ''me'']
      users_me_request () 0 = (Inr None, 0)"
    using t1 by (simp add: method_users_me lower_GET)
  have 2: "method_accepted Get mixed_case_request"
    using t2 v g by blast
  have 3: "route alarm_matcher Get ''/users/:id'' [] by_id_handler ['''', ''users'', ''me'']
      mixed_case_request () 0 = (Inl (ThrownError ''matcher called''), 0)"
    using t2 vg unfolding k by blast
  have 4: "route alarm_matcher All ''/users/:id'' [] by_id_handler ['''', ''users'', ''me'']
      users_me_request () 0 = (Inl (ThrownError ''matcher called''), 0)"
    using t3 unfolding k by blast
  have 5: "route alarm_matcher Get ''/users/:id'' [] by_id_handler ['''', ''users'', ''me'']
      post_request () 0 = (Inr None, 0)"
    using t4 vp by simp
  have 6: "route alarm_matcher Post ''/users/:id'' [] by_id_handler ['''', ''users'', ''me'']
      mixed_case_request () 0 = (Inr None, 0)"
    using t5 vg by simp
  show ?thesis using 1 2 3 4 5 6 v vp vg g by simp
qed

subsection \<open>The matcher\<close>

text \<open>
  C8. For a pattern \<open>P\<close> and a path \<open>X\<close>, split on \<open>/\<close>: when the pattern's last segment is
  not the wildcard and the two have different numbers of segments, the matcher answers
  "no match", and so does the walk over the positions by itself, from any parameters
  collected so far.
\<close>

theorem length_mismatch_no_match:
  assumes "\<not> has_wildcard (split CHR ''/'' P)"
    and "length (split CHR ''/'' X) \<noteq> length (split CHR ''/'' P)"
  shows "match (split CHR ''/'' X) (split CHR ''/'' P) = None \<and>
         walk (split CHR ''/'' X) (split CHR ''/'' P) ps = None"
  using assms walk_length_mismatch [OF assms, of ps] by (simp add: match_def)

theorem length_mismatch_no_match_witness:
  "\<not> has_wildcard (split CHR ''/'' ''/users/:id'') \<and>
   length (split CHR ''/'' ''/users/42/extra'') = 4 \<and>
   length (split CHR ''/'' ''/users/:id'') = 3 \<and>
   match (split CHR ''/'' ''/users/42/extra'') (split CHR ''/'' ''/users/:id'') = None \<and>
   walk (split CHR ''/'' ''/users/42/extra'') (split CHR ''/'' ''/users/:id'') Map.empty = None"
proof -
  have a: "\<not> has_wildcard (split CHR ''/'' ''/users/:id'')"
    by (simp add: has_wildcard_def)
  have b: "length (split CHR ''/'' ''/users/42/extra'') \<noteq> length (split CHR ''/'' ''/users/:id'')"
    by simp
  have c: "length (split CHR ''/'' ''/users/42/extra'') = 4 \<and>
      length (split CHR ''/'' ''/users/:id'') = 3"
    by simp
  show ?thesis
    using a c length_mismatch_no_match [OF a b, of Map.empty] by blast
qed

subsection \<open>Dispatching twice\<close>

text \<open>
  C9. When every plugin and handler of the table is pure, a dispatch leaves the world as
  it found it and its response does not depend on the world. So the same request,
  dispatched again in the world the first dispatch left, or in any other world, gets
  the same response: same status, same body, same headers.
\<close>

theorem pure_dispatch_repeatable:
  assumes "\<forall>g\<in>set gs. pure_registration g"
  shows "fst (handle (Router matcher gs) request rest
             (snd (handle (Router matcher gs) request rest w)))
           = fst (handle (Router matcher gs) request rest w) \<and>
         (\<forall>w'. fst (handle (Router matcher gs) request rest w')
           = fst (handle (Router matcher gs) request rest w)) \<and>
         snd (handle (Router matcher gs) request rest w) = w"
  using handle_const [OF assms, of matcher request rest] by auto

theorem pure_dispatch_repeatable_witness:
  "pure_registration users_pure \<and>
   handle (Router imported_match [users_pure]) users_me_request () 0
     = (Inr \<lparr>status = 200, body = Some ''*'', headers = []\<rparr>, 0) \<and>
   fst (handle (Router imported_match [users_pure]) users_me_request ()
          (snd (handle (Router imported_match [users_pure]) users_me_request () 0)))
     = Inr \<lparr>status = 200, body = Some ''*'', headers = []\<rparr>"
proof -
  let ?segs = "split CHR ''/'' (pathname (url users_me_request))"
  let ?f = "[''user'' \<mapsto> Any 1] :: string \<rightharpoonup> nat data"
  let ?ctx = "foldl Object_assign (initial_context [''id'' \<mapsto> ''me''] users_me_request) [?f]"
  have p: "pure_registration users_pure"
    by (simp add: pure_registration_def users_pure_def pure_plugin_def pure_handler_def
        quiet_plugin_def quiet_handler_def)
  then have q: "\<forall>g\<in>set [users_pure]. pure_registration g"
    by simp
  have a: "method_accepted (reg_method users_pure) users_me_request"
    by (simp add: method_accepted_def users_pure_def method_users_me lower_GET)
  have m: "imported_match ?segs (split CHR ''/'' (reg_pattern users_pure))
      = Inr (Some [''id'' \<mapsto> ''me''])"
    by (simp add: users_pure_def segments_users_me imported_match_def match_users_id_me)
  have i: "invoke_plugins (reg_plugins users_pure) users_me_request 0
      = (Inr [(0, Fulfilled (Fields ?f))], 0)"
    by (simp add: users_pure_def quiet_plugin_def)
  have s: "map snd [(0::nat, Fulfilled (Fields ?f))] = map Fulfilled (map Fields [?f])"
    by simp
  have r: "get ?ctx ''user'' = Some (Data (Any 1))"
    by (rule get_own) (simp add: own_Object_assign)
  have h: "reg_handler users_pure ?ctx () 0
      = (Inr \<lparr>status = 200, body = Some ''*'', headers = []\<rparr>, 0)"
    by (simp add: users_pure_def quiet_handler_def r stars del: foldl.simps One_nat_def)
  have "route_of imported_match users_pure ?segs users_me_request () 0
     = (Inr (Some \<lparr>status = 200, body = Some ''*'', headers = []\<rparr>), 0)"
    using route_of_plugin_fields
      [where matcher = imported_match and segments = ?segs, OF a m i s, of "()"] h
    by simp
  then have one: "handle (Router imported_match [users_pure]) users_me_request () 0
      = (Inr \<lparr>status = 200, body = Some ''*'', headers = []\<rparr>, 0)"
    using handle_first_answer [of "[]" imported_match users_me_request users_pure "()" 0 _ 0 "[]"]
    by simp
  show ?thesis
    using p one pure_dispatch_repeatable [OF q, of imported_match users_me_request "()" 0]
    by simp
qed

end
